theory Spec2Isabelle
  imports Complex_Main "HOL-Library.Sublist"
begin

section \<open>Exceptions of the script\<close>

text \<open>
  Every \<^verbatim>\<open>raise\<close>, failed \<^verbatim>\<open>assert\<close> and failing builtin of
  \<^verbatim>\<open>extract_author_info.py\<close> that the modelled functions can reach is a value of
  this type; a modelled function returns \<open>error + 'a\<close> with \<open>Inl\<close> for the exception.
\<close>

datatype error =
    AssertionError
  | IndexError
  | KeyError string
  | TypeError
  | JSONDecodeError
  | RuntimeWarning string
  | FileNotFoundError string
  | OSError string
  | RequestException string

section \<open>The membership table and \<^verbatim>\<open>_make_author_order\<close>\<close>

text \<open>
  The six authorship columns of the target sheet, in the order of
  \<^verbatim>\<open>self.author_categories\<close> (lines 33-35).
\<close>

datatype category =
    First_authors
  | Contributing_1
  | Contributing_2
  | Consortium_Coordinators
  | Scientific_Directors
  | Contributing_3

definition author_categories :: "category list" where
  "author_categories =
     [First_authors, Contributing_1, Contributing_2, Consortium_Coordinators,
      Scientific_Directors, Contributing_3]"

text \<open>
  One row of the target sheet after \<^verbatim>\<open>dropna\<close>, \<^verbatim>\<open>fillna(value=0)\<close> and the
  projection to the useful columns (lines 388-399). The numeric cells are only ever
  compared with \<open>0\<close>, so they are reals.
\<close>

record membership_row =
  last_name :: string
  first_name :: string
  first_authors :: real
  contributing_1 :: real
  contributing_2 :: real
  consortium_coordinators :: real
  scientific_directors :: real
  contributing_3 :: real
  sum_col :: real

text \<open>\<^verbatim>\<open>df.at[author, author_category]\<close> for the row of that author.\<close>

fun cell :: "membership_row \<Rightarrow> category \<Rightarrow> real" where
  "cell r First_authors = first_authors r"
| "cell r Contributing_1 = contributing_1 r"
| "cell r Contributing_2 = contributing_2 r"
| "cell r Consortium_Coordinators = consortium_coordinators r"
| "cell r Scientific_Directors = scientific_directors r"
| "cell r Contributing_3 = contributing_3 r"

text \<open>
  \<^verbatim>\<open>last_name + first_name[0]\<close> (line 401). Indexing an empty first name raises
  \<^verbatim>\<open>IndexError\<close>; \<open>name_index\<close> checks for that before \<open>name_key\<close> is used.
\<close>

definition name_key :: "membership_row \<Rightarrow> string" where
  "name_key r = last_name r @ take 1 (first_name r)"

definition name_index :: "membership_row list \<Rightarrow> error + string list" where
  "name_index df =
     (if list_ex (\<lambda>r. first_name r = []) df then Inl IndexError
      else Inr (map name_key df))"

text \<open>
  The inner loop of an ordinary category (lines 421-426) and of the two special
  categories (lines 428-431), with the list built so far. The source iterates over
  \<^verbatim>\<open>df.index\<close> and reads \<^verbatim>\<open>df.at[author, column]\<close>; the index was asserted unique
  at line 403 before the loops start, so the cells read for an author are those of
  that author's own row, and the loop runs over the rows in table order.
\<close>

fun ordinary_pass :: "category \<Rightarrow> membership_row list \<Rightarrow> string list \<Rightarrow> string list" where
  "ordinary_pass c [] author_order_list = author_order_list"
| "ordinary_pass c (r # rs) author_order_list =
     (if name_key r \<notin> set author_order_list \<and> 0 < cell r c
         \<and> cell r Scientific_Directors = 0 \<and> cell r Contributing_3 = 0
      then ordinary_pass c rs (author_order_list @ [name_key r])
      else ordinary_pass c rs author_order_list)"

fun override_pass :: "category \<Rightarrow> membership_row list \<Rightarrow> string list \<Rightarrow> string list" where
  "override_pass c [] author_order_list = author_order_list"
| "override_pass c (r # rs) author_order_list =
     (if name_key r \<notin> set author_order_list \<and> 0 < cell r c
      then override_pass c rs (author_order_list @ [name_key r])
      else override_pass c rs author_order_list)"

text \<open>The outer loop over the categories (lines 417-431).\<close>

fun category_loop :: "category list \<Rightarrow> membership_row list \<Rightarrow> string list \<Rightarrow> string list" where
  "category_loop [] df author_order_list = author_order_list"
| "category_loop (c # cs) df author_order_list =
     category_loop cs df
       (if c \<notin> {Scientific_Directors, Contributing_3}
        then ordinary_pass c df author_order_list
        else override_pass c df author_order_list)"

text \<open>The rows that survive \<^verbatim>\<open>df = df[df['sum'] > 0]\<close> (line 392).\<close>

definition filtered_rows :: "membership_row list \<Rightarrow> membership_row list" where
  "filtered_rows sheet = filter (\<lambda>r. 0 < sum_col r) sheet"

text \<open>
  \<^verbatim>\<open>_make_author_order\<close> from the filter on: the index is built and asserted
  unique (lines 401-403), the loops run, and the length assertion of line 433 guards
  the return.
\<close>

definition make_author_order :: "membership_row list \<Rightarrow> error + string list" where
  "make_author_order sheet =
     (let df = filtered_rows sheet in
      case name_index df of
        Inl e \<Rightarrow> Inl e
      | Inr idx \<Rightarrow>
          if length idx \<noteq> card (set idx) then Inl AssertionError
          else
            let author_order_list = category_loop author_categories df [] in
            if length author_order_list = length df then Inr author_order_list
            else Inl AssertionError)"




section \<open>The author table and \<^verbatim>\<open>_make_affiliations_dicts\<close>\<close>

text \<open>
  One row of \<^verbatim>\<open>self.author_info_df\<close>, the frame of the Template sheet with the
  columns \<^verbatim>\<open>last name\<close>, \<^verbatim>\<open>first name\<close>, \<^verbatim>\<open>first name initial(s)\<close>,
  \<^verbatim>\<open>affiliation\<close> and \<^verbatim>\<open>ORCID\<close> (line 445). The frame is indexed by the author
  key, asserted unique (line 449), so it is a map from keys to rows;
  \<^verbatim>\<open>df.at[author, column]\<close> raises \<^verbatim>\<open>KeyError\<close> where the map is undefined.
\<close>

record author_info =
  info_last_name :: string
  info_first_name :: string
  first_name_initials :: string
  affiliation :: string
  ORCID :: string

type_synonym author_info_df = "string \<rightharpoonup> author_info"

text \<open>
  \<^verbatim>\<open>df.loc['ClayssenQ'] = ['Clayssen', 'Quentin', 'C.', 'not-provided', 'not-provided']\<close>
  (line 452): the row is set, or appended when the key is new.
\<close>

definition loc_ClayssenQ :: "author_info_df \<Rightarrow> author_info_df" where
  "loc_ClayssenQ df =
     df(''ClayssenQ'' \<mapsto>
        \<lparr>info_last_name = ''Clayssen'', info_first_name = ''Quentin'',
         first_name_initials = ''C.'', affiliation = ''not-provided'',
         ORCID = ''not-provided''\<rparr>)"

text \<open>
  The list and the three dictionaries that \<^verbatim>\<open>_make_affiliations_dicts\<close> builds and
  returns (lines 363-366, 385).
\<close>

record registry =
  affiliation_list :: "string list"
  affil_str_to_affil_num_dict :: "string \<rightharpoonup> int"
  affil_num_to_affil_str_dict :: "int \<rightharpoonup> string"
  author_to_affil_num_list_dict :: "string \<rightharpoonup> int list"

definition empty_registry :: registry where
  "empty_registry =
     \<lparr>affiliation_list = [], affil_str_to_affil_num_dict = Map.empty,
      affil_num_to_affil_str_dict = Map.empty,
      author_to_affil_num_list_dict = Map.empty\<rparr>"

text \<open>
  Reading \<^verbatim>\<open>defaultdict(list)\<close> at a key: the stored list, or the empty list for a
  key never written.
\<close>

definition defaultdict_get :: "('k \<rightharpoonup> 'v list) \<Rightarrow> 'k \<Rightarrow> 'v list" where
  "defaultdict_get d k = (case d k of None \<Rightarrow> [] | Some vs \<Rightarrow> vs)"

text \<open>The message of the \<^verbatim>\<open>RuntimeWarning\<close> raised at lines 374-375.\<close>

definition no_affiliation_message :: "string \<Rightarrow> string" where
  "no_affiliation_message author =
     ''An affiliation could not be found for '' @ author @ [CHR 0x0A]
       @ ''No affiliation will be associated.''"

text \<open>
  The body of the inner loop (lines 378-384) for one affiliation string of one author.
  Reading \<^verbatim>\<open>affil_str_to_affil_num_dict[affil_string]\<close> raises \<^verbatim>\<open>KeyError\<close> at a
  missing key.
\<close>

definition record_affiliation :: "string \<Rightarrow> string \<Rightarrow> registry \<Rightarrow> error + registry" where
  "record_affiliation author affil_string reg =
     (if affil_string \<notin> set (affiliation_list reg) then
        (let al = affiliation_list reg @ [affil_string] in
         Inr (reg\<lparr>affiliation_list := al,
                affil_str_to_affil_num_dict :=
                  (affil_str_to_affil_num_dict reg)(affil_string \<mapsto> int (length al)),
                author_to_affil_num_list_dict :=
                  (author_to_affil_num_list_dict reg)(author \<mapsto>
                     defaultdict_get (author_to_affil_num_list_dict reg) author
                       @ [int (length al)]),
                affil_num_to_affil_str_dict :=
                  (affil_num_to_affil_str_dict reg)(int (length al) \<mapsto> affil_string)\<rparr>))
      else
        (case affil_str_to_affil_num_dict reg affil_string of
           None \<Rightarrow> Inl (KeyError affil_string)
         | Some n \<Rightarrow>
             Inr (reg\<lparr>author_to_affil_num_list_dict :=
                    (author_to_affil_num_list_dict reg)(author \<mapsto>
                       defaultdict_get (author_to_affil_num_list_dict reg) author @ [n])\<rparr>)))"

text \<open>The inner loop \<^verbatim>\<open>for affil_string in author_affil_list\<close> (line 377).\<close>

fun affil_string_loop :: "string \<Rightarrow> string list \<Rightarrow> registry \<Rightarrow> error + registry" where
  "affil_string_loop author [] reg = Inr reg"
| "affil_string_loop author (affil_string # rest) reg =
     (case record_affiliation author affil_string reg of
        Inl e \<Rightarrow> Inl e
      | Inr reg' \<Rightarrow> affil_string_loop author rest reg')"

text \<open>
  The outer loop \<^verbatim>\<open>for author in self.author_order\<close> (lines 368-384). The
  \<^verbatim>\<open>KeyError\<close> of the lookup is caught and a \<^verbatim>\<open>RuntimeWarning\<close> is raised in its
  place (lines 371-375); \<^verbatim>\<open>author_affil_list\<close> is the one-element list of the
  author's affiliation cell (line 372).
\<close>

fun author_loop :: "author_info_df \<Rightarrow> string list \<Rightarrow> registry \<Rightarrow> error + registry" where
  "author_loop df [] reg = Inr reg"
| "author_loop df (author # rest) reg =
     (case df author of
        None \<Rightarrow> Inl (RuntimeWarning (no_affiliation_message author))
      | Some row \<Rightarrow>
          (case affil_string_loop author [affiliation row] reg of
             Inl e \<Rightarrow> Inl e
           | Inr reg' \<Rightarrow> author_loop df rest reg'))"

definition make_affiliations_dicts :: "author_info_df \<Rightarrow> string list \<Rightarrow> error + registry" where
  "make_affiliations_dicts df author_order = author_loop df author_order empty_registry"

section \<open>\<^verbatim>\<open>_make_creator_array\<close>\<close>

text \<open>
  One dictionary of the creator array (lines 182-188): the keys \<^verbatim>\<open>affiliation\<close> and
  \<^verbatim>\<open>orcid\<close> are present only when the cell is not \<^verbatim>\<open>'not-provided'\<close>.
\<close>

record creator =
  name :: string
  creator_affiliation :: "string option"
  creator_orcid :: "string option"

definition author_dict :: "author_info \<Rightarrow> creator" where
  "author_dict row =
     \<lparr>name = info_last_name row @ '', '' @ info_first_name row,
      creator_affiliation =
        (if affiliation row \<noteq> ''not-provided'' then Some (affiliation row) else None),
      creator_orcid = (if ORCID row \<noteq> ''not-provided'' then Some (ORCID row) else None)\<rparr>"

fun make_creator_array :: "author_info_df \<Rightarrow> string list \<Rightarrow> error + creator list" where
  "make_creator_array df [] = Inr []"
| "make_creator_array df (author # rest) =
     (case df author of
        None \<Rightarrow> Inl (KeyError author)
      | Some row \<Rightarrow>
          (case make_creator_array df rest of
             Inl e \<Rightarrow> Inl e
           | Inr creator_array \<Rightarrow> Inr (author_dict row # creator_array)))"

section \<open>Strings: \<^verbatim>\<open>str\<close>, \<^verbatim>\<open>join\<close> and \<^verbatim>\<open>_superscript\<close>\<close>

text \<open>
  Python's \<^verbatim>\<open>str\<close> of an integer: the decimal digits, most significant first, after
  a minus sign for a negative number.
\<close>

definition digit_char :: "nat \<Rightarrow> char" where
  "digit_char d = ''0123456789'' ! d"

function str_nat :: "nat \<Rightarrow> string" where
  "str_nat n = (if n < 10 then [digit_char n] else str_nat (n div 10) @ [digit_char (n mod 10)])"
  by pat_completeness auto
termination
  by (relation "measure id") auto

declare str_nat.simps [simp del]

definition py_str :: "int \<Rightarrow> string" where
  "py_str i = (if i < 0 then CHR ''-'' # str_nat (nat (- i)) else str_nat (nat i))"

text \<open>\<^verbatim>\<open>sep.join(strings)\<close>.\<close>

fun join :: "string \<Rightarrow> string list \<Rightarrow> string" where
  "join sep [] = []"
| "join sep [s] = s"
| "join sep (s # t # ts) = s @ sep @ join sep (t # ts)"

text \<open>
  \<^verbatim>\<open>_superscript\<close> (lines 455-468). The result is a Python string of superscript
  digits, which are not ASCII: it is modelled as the list of its Unicode code points.
  \<^verbatim>\<open>sup_map[c]\<close> raises \<^verbatim>\<open>KeyError\<close> for a character that is not a digit.
\<close>

definition sup_map :: "char \<rightharpoonup> nat" where
  "sup_map =
     map_of
       [(CHR ''0'', 0x2070), (CHR ''1'', 0xB9), (CHR ''2'', 0xB2), (CHR ''3'', 0xB3),
        (CHR ''4'', 0x2074), (CHR ''5'', 0x2075), (CHR ''6'', 0x2076),
        (CHR ''7'', 0x2077), (CHR ''8'', 0x2078), (CHR ''9'', 0x2079)]"

fun sup_loop :: "string \<Rightarrow> nat list \<Rightarrow> error + nat list" where
  "sup_loop [] sup_num = Inr sup_num"
| "sup_loop (c # num) sup_num =
     (case sup_map c of
        None \<Rightarrow> Inl (KeyError [c])
      | Some g \<Rightarrow> sup_loop num (sup_num @ [g]))"

definition superscript :: "int \<Rightarrow> error + nat list" where
  "superscript number_to_convert = sup_loop (py_str number_to_convert) []"

section \<open>\<^verbatim>\<open>_create_affiliation_strings\<close>\<close>

text \<open>
  The list comprehension of lines 317-320 and 323-326 over
  \<^verbatim>\<open>range(len(self.affiliation_list))\<close>: one entry \<^verbatim>\<open>f'{n + 1}-{dict[n + 1]}'\<close> per
  index, \<^verbatim>\<open>KeyError\<close> where the dictionary has no such number.
\<close>

fun affiliation_entries :: "registry \<Rightarrow> nat list \<Rightarrow> error + string list" where
  "affiliation_entries reg [] = Inr []"
| "affiliation_entries reg (affil_num # rest) =
     (case affil_num_to_affil_str_dict reg (int affil_num + 1) of
        None \<Rightarrow> Inl (KeyError (py_str (int affil_num + 1)))
      | Some affil_string \<Rightarrow>
          (case affiliation_entries reg rest of
             Inl e \<Rightarrow> Inl e
           | Inr entries \<Rightarrow>
               Inr ((py_str (int affil_num + 1) @ ''-'' @ affil_string) # entries)))"

text \<open>The pair returned: \<^verbatim>\<open>(affiliations_new_lines, affiliations_one_line)\<close>.\<close>

definition create_affiliation_strings :: "registry \<Rightarrow> error + (string \<times> string)" where
  "create_affiliation_strings reg =
     (case affiliation_entries reg [0..<length (affiliation_list reg)] of
        Inl e \<Rightarrow> Inl e
      | Inr entries \<Rightarrow> Inr (join ('';'' @ [CHR 0x0A]) entries, join ''; '' entries))"

section \<open>\<^verbatim>\<open>_get_and_check_datafile_paths\<close>\<close>

text \<open>\<^verbatim>\<open>s.split(',')\<close>: the pieces between the commas, with \<open>cur\<close> the piece being read.\<close>

fun split_acc :: "char \<Rightarrow> string \<Rightarrow> string \<Rightarrow> string list" where
  "split_acc sep cur [] = [cur]"
| "split_acc sep cur (c # cs) =
     (if c = sep then cur # split_acc sep [] cs else split_acc sep (cur @ [c]) cs)"

definition split :: "string \<Rightarrow> char \<Rightarrow> string list" where
  "split s sep = split_acc sep [] s"

text \<open>The message of the \<^verbatim>\<open>FileNotFoundError\<close> of lines 118-119.\<close>

definition files_not_found_message :: "string list \<Rightarrow> string" where
  "files_not_found_message no_file =
     ''The following files for upload could not be found ''
       @ join [CHR 0x0A] (map (\<lambda>file. CHR 0x09 # file) no_file)"

text \<open>
  \<^verbatim>\<open>_get_and_check_datafile_paths\<close> (lines 100-120). The argument is
  \<^verbatim>\<open>self.args.data_file_paths\<close>: \<open>None\<close> when the flag was not given. \<open>isfile\<close> is
  \<^verbatim>\<open>os.path.isfile\<close> on the disk of the run. The two warnings are printed and the
  empty list returned; printing is not modelled.
\<close>

definition get_and_check_datafile_paths ::
    "(string \<Rightarrow> bool) \<Rightarrow> string option \<Rightarrow> error + string list" where
  "get_and_check_datafile_paths isfile data_file_paths =
     (case data_file_paths of
        None \<Rightarrow> Inr []
      | Some s \<Rightarrow>
          if s = [] then Inr []
          else
            let data_file_path_list = split s CHR '','' in
            if data_file_path_list = [] then Inr []
            else
              let no_file = filter (\<lambda>data_file. \<not> isfile data_file) data_file_path_list in
              if no_file \<noteq> [] then Inl (FileNotFoundError (files_not_found_message no_file))
              else Inr data_file_path_list)"

section \<open>\<^verbatim>\<open>do_zenodo_submission\<close>\<close>

text \<open>
  What \<^verbatim>\<open>response.json()\<close> returns: a parsed JSON value. An object is the list of
  its members, each key once, read by key.
\<close>

datatype json =
    JNull
  | JBool bool
  | JNum int
  | JStr string
  | JArr "json list"
  | JObj "(string \<times> json) list"

text \<open>
  A response of the remote API: its status code, and its body parsed as JSON, \<open>None\<close>
  when the body is not JSON (then \<^verbatim>\<open>response.json()\<close> raises).
\<close>

record response =
  status_code :: nat
  body :: "json option"

text \<open>
  The three calls of the \<^verbatim>\<open>requests\<close> library in the script: \<^verbatim>\<open>requests.post\<close>
  at line 224, \<^verbatim>\<open>requests.put\<close> at line 241 and at line 250. The URL of an upload
  is \<^verbatim>\<open>f"{bucket_url}/{filename}"\<close> and that of the metadata request ends in
  \<^verbatim>\<open>{deposition_id}\<close>, where both values come out of the first response as they
  are: the call keeps them as JSON values. Each call carries the access token; an
  upload also the path of the file whose bytes are sent, the metadata request the
  metadata object.
\<close>

datatype 'm request =
    Post_deposition string
  | Put_file json string string string
  | Put_metadata json 'm string

text \<open>
  The outcome of a call of \<^verbatim>\<open>requests.post\<close> or \<^verbatim>\<open>requests.put\<close>, given the
  calls made before it in the run: the response of the remote API, or the exception
  that the library raises. It raises before anything is sent when it cannot use the
  URL (\<^verbatim>\<open>MissingSchema\<close>, \<^verbatim>\<open>InvalidURL\<close>: a bucket value that is not a URL with a
  scheme), and while sending when the remote cannot be reached
  (\<^verbatim>\<open>ConnectionError\<close>, \<^verbatim>\<open>Timeout\<close>); all are \<^verbatim>\<open>RequestException\<close>s. The library
  and the remote are parameters of the model.
\<close>

type_synonym 'm remote = "'m request list \<Rightarrow> 'm request \<Rightarrow> error + response"

text \<open>
  \<^verbatim>\<open>open(path, "rb")\<close> at line 240, given the calls made before it: \<open>None\<close> when the
  file opens, the exception raised (an \<^verbatim>\<open>OSError\<close>) when it does not.
\<close>

type_synonym 'm opener = "'m request list \<Rightarrow> string \<Rightarrow> error option"

text \<open>\<^verbatim>\<open>response.json()\<close> and Python's \<^verbatim>\<open>value[key]\<close> for a string key.\<close>

definition response_json :: "response \<Rightarrow> error + json" where
  "response_json r = (case body r of None \<Rightarrow> Inl JSONDecodeError | Some j \<Rightarrow> Inr j)"

fun subscript :: "json \<Rightarrow> string \<Rightarrow> error + json" where
  "subscript (JObj members) k =
     (case map_of members k of None \<Rightarrow> Inl (KeyError k) | Some v \<Rightarrow> Inr v)"
| "subscript JNull k = Inl TypeError"
| "subscript (JBool b) k = Inl TypeError"
| "subscript (JNum n) k = Inl TypeError"
| "subscript (JStr s) k = Inl TypeError"
| "subscript (JArr vs) k = Inl TypeError"

text \<open>\<^verbatim>\<open>response.json()[k1][k2]\<close>.\<close>

definition json_path2 :: "response \<Rightarrow> string \<Rightarrow> string \<Rightarrow> error + json" where
  "json_path2 r k1 k2 =
     (case response_json r of
        Inl e \<Rightarrow> Inl e
      | Inr j \<Rightarrow> (case subscript j k1 of Inl e \<Rightarrow> Inl e | Inr v \<Rightarrow> subscript v k2))"

text \<open>
  \<^verbatim>\<open>_create_blank_deposition\<close> (lines 220-231). Every function of the submission
  takes the list of the calls made so far and returns it extended; a call that raises
  is in the list, and ends the run with its exception.
\<close>

definition create_blank_deposition ::
    "'m remote \<Rightarrow> string \<Rightarrow> 'm request list \<Rightarrow> 'm request list \<times> (error + json \<times> json)" where
  "create_blank_deposition remote access_token made =
     (let made' = made @ [Post_deposition access_token]
      in case remote made (Post_deposition access_token) of
           Inl e \<Rightarrow> (made', Inl e)
         | Inr create_blank_depo_response \<Rightarrow>
             (case json_path2 create_blank_depo_response ''links'' ''bucket'' of
                Inl e \<Rightarrow> (made', Inl e)
              | Inr bucket_url \<Rightarrow>
                  (case response_json create_blank_depo_response of
                     Inl e \<Rightarrow> (made', Inl e)
                   | Inr j \<Rightarrow>
                       (case subscript j ''id'' of
                          Inl e \<Rightarrow> (made', Inl e)
                        | Inr deposition_id \<Rightarrow> (made', Inr (bucket_url, deposition_id))))))"

text \<open>
  \<^verbatim>\<open>_prepare_filenames_and_paths\<close> (lines 212-218), with \<^verbatim>\<open>ntpath.basename\<close> a
  parameter.
\<close>

definition prepare_filenames_and_paths :: "(string \<Rightarrow> string) \<Rightarrow> string list \<Rightarrow> string list" where
  "prepare_filenames_and_paths basename data_file_path_list = map basename data_file_path_list"

text \<open>
  \<^verbatim>\<open>_upload_files_to_deposition\<close> (lines 233-246): for each pair of
  \<^verbatim>\<open>zip(self.data_file_path_list, filename_list)\<close> the file is opened and
  \<^verbatim>\<open>requests.put\<close> is called; either can raise, which ends the loop. The response
  \<^verbatim>\<open>r\<close> is assigned and never read.
\<close>

fun upload_files_to_deposition ::
    "'m opener \<Rightarrow> 'm remote \<Rightarrow> string \<Rightarrow> json \<Rightarrow> (string \<times> string) list \<Rightarrow> 'm request list
      \<Rightarrow> 'm request list \<times> (error + unit)" where
  "upload_files_to_deposition open_rb remote access_token bucket_url [] made = (made, Inr ())"
| "upload_files_to_deposition open_rb remote access_token bucket_url ((path, filename) # rest)
       made =
     (case open_rb made path of
        Some e \<Rightarrow> (made, Inl e)
      | None \<Rightarrow>
          (case remote made (Put_file bucket_url filename path access_token) of
             Inl e \<Rightarrow> (made @ [Put_file bucket_url filename path access_token], Inl e)
           | Inr r \<Rightarrow>
               upload_files_to_deposition open_rb remote access_token bucket_url rest
                 (made @ [Put_file bucket_url filename path access_token])))"

text \<open>\<^verbatim>\<open>_associate_meta_data\<close> (lines 248-254).\<close>

definition associate_meta_data ::
    "'m remote \<Rightarrow> string \<Rightarrow> 'm \<Rightarrow> json \<Rightarrow> 'm request list
      \<Rightarrow> 'm request list \<times> (error + response)" where
  "associate_meta_data remote access_token data deposition_id made =
     (made @ [Put_metadata deposition_id data access_token],
      remote made (Put_metadata deposition_id data access_token))"

text \<open>
  \<^verbatim>\<open>do_zenodo_submission\<close> (lines 191-210): the calls made, and the link that the
  final message prints or the exception raised.
\<close>

definition do_zenodo_submission ::
    "'m opener \<Rightarrow> 'm remote \<Rightarrow> (string \<Rightarrow> string) \<Rightarrow> string \<Rightarrow> string list \<Rightarrow> 'm
      \<Rightarrow> 'm request list \<times> (error + json)" where
  "do_zenodo_submission open_rb remote basename access_token data_file_path_list data =
     (case create_blank_deposition remote access_token [] of
        (made, Inl e) \<Rightarrow> (made, Inl e)
      | (made, Inr (bucket_url, deposition_id)) \<Rightarrow>
          (case (if data_file_path_list \<noteq> [] then
                   upload_files_to_deposition open_rb remote access_token bucket_url
                     (zip data_file_path_list
                        (prepare_filenames_and_paths basename data_file_path_list))
                     made
                 else (made, Inr ())) of
             (made', Inl e) \<Rightarrow> (made', Inl e)
           | (made', Inr u) \<Rightarrow>
               (case associate_meta_data remote access_token data deposition_id made' of
                  (made'', Inl e) \<Rightarrow> (made'', Inl e)
                | (made'', Inr meta_data_response) \<Rightarrow>
                    (made'', json_path2 meta_data_response ''links'' ''html''))))"

text \<open>
  The submission path of the script (lines 30-32, 72, 482-486): the data files are
  checked first, inside the constructor; the rest of the constructor and
  \<^verbatim>\<open>output_author_info\<close> make no call of \<^verbatim>\<open>requests\<close> and either complete or
  raise, which is the parameter \<open>rest\<close>; then \<^verbatim>\<open>do_zenodo_submission\<close> runs.
\<close>

definition submission_path ::
    "(string \<Rightarrow> bool) \<Rightarrow> string option \<Rightarrow> error option \<Rightarrow> 'm opener \<Rightarrow> 'm remote
      \<Rightarrow> (string \<Rightarrow> string) \<Rightarrow> string \<Rightarrow> 'm \<Rightarrow> 'm request list \<times> (error + json)" where
  "submission_path isfile data_file_paths rest open_rb remote basename access_token data =
     (case get_and_check_datafile_paths isfile data_file_paths of
        Inl e \<Rightarrow> ([], Inl e)
      | Inr data_file_path_list \<Rightarrow>
          (case rest of
             Some e \<Rightarrow> ([], Inl e)
           | None \<Rightarrow>
               do_zenodo_submission open_rb remote basename access_token
                 data_file_path_list data))"

section \<open>Auxiliary notions for the proofs about the ordering\<close>

text \<open>
  The condition under which a pass appends a row that is not yet in the list, and the
  pass the outer loop runs for a category.
\<close>

definition eligible :: "category \<Rightarrow> membership_row \<Rightarrow> bool" where
  "eligible c r \<longleftrightarrow>
     (if c \<notin> {Scientific_Directors, Contributing_3}
      then 0 < cell r c \<and> cell r Scientific_Directors = 0 \<and> cell r Contributing_3 = 0
      else 0 < cell r c)"

definition one_pass :: "category \<Rightarrow> membership_row list \<Rightarrow> string list \<Rightarrow> string list" where
  "one_pass c df acc =
     (if c \<notin> {Scientific_Directors, Contributing_3}
      then ordinary_pass c df acc else override_pass c df acc)"

text \<open>Sample sheets: the second holds a row with a positive sum and no positive weight.\<close>

definition mk_row :: "string \<Rightarrow> string \<Rightarrow> real \<Rightarrow> real \<Rightarrow> real \<Rightarrow> real \<Rightarrow> real \<Rightarrow> real \<Rightarrow> real
    \<Rightarrow> membership_row" where
  "mk_row l f w1 w2 w3 w4 w5 w6 s =
     \<lparr>last_name = l, first_name = f, first_authors = w1, contributing_1 = w2,
      contributing_2 = w3, consortium_coordinators = w4, scientific_directors = w5,
      contributing_3 = w6, sum_col = s\<rparr>"

definition example_sheet :: "membership_row list" where
  "example_sheet =
     [mk_row ''Smith'' ''John'' 1 0 0 0 0 0 1,
      mk_row ''Lee'' ''Kim'' 1 0 0 0 1 0 2,
      mk_row ''Idle'' ''Ian'' 0 0 0 0 0 0 0,
      mk_row ''Doe'' ''Ann'' 0 1 0 0 0 0 1]"

definition unplaced_sheet :: "membership_row list" where
  "unplaced_sheet =
     [mk_row ''Smith'' ''John'' 1 0 0 0 0 0 1,
      mk_row ''Roe'' ''Max'' 0 0 0 0 0 0 1]"

section \<open>Auxiliary notions for the proofs about the registry\<close>

text \<open>
  The invariant of the loop of \<^verbatim>\<open>_make_affiliations_dicts\<close>: the list has no
  duplicates, the string at index \<open>i\<close> has the number \<open>i + 1\<close> in both dictionaries,
  and no other string has a number. \<open>looked_up\<close> lists the affiliation cells of the
  authors of the order that the table resolves, in order.
\<close>

definition registry_ok :: "registry \<Rightarrow> bool" where
  "registry_ok reg \<longleftrightarrow>
     distinct (affiliation_list reg)
     \<and> (\<forall>i < length (affiliation_list reg).
          affil_str_to_affil_num_dict reg (affiliation_list reg ! i) = Some (int i + 1)
          \<and> affil_num_to_affil_str_dict reg (int i + 1) = Some (affiliation_list reg ! i))
     \<and> (\<forall>s. s \<notin> set (affiliation_list reg) \<longrightarrow> affil_str_to_affil_num_dict reg s = None)"

definition looked_up :: "author_info_df \<Rightarrow> string list \<Rightarrow> string list" where
  "looked_up df author_order = List.map_filter (\<lambda>a. map_option affiliation (df a)) author_order"

text \<open>A sample author table, patched as line 452 does, and the registry it yields.\<close>

definition mk_info :: "string \<Rightarrow> string \<Rightarrow> string \<Rightarrow> string \<Rightarrow> string \<Rightarrow> author_info" where
  "mk_info l f i a oid =
     \<lparr>info_last_name = l, info_first_name = f, first_name_initials = i, affiliation = a,
      ORCID = oid\<rparr>"

definition example_info :: author_info_df where
  "example_info =
     loc_ClayssenQ
       (map_of
         [(''SmithJ'', mk_info ''Smith'' ''John'' ''J.'' ''Lab1'' ''0000-0001''),
          (''DoeA'', mk_info ''Doe'' ''Ann'' ''A.'' ''Lab2'' ''not-provided''),
          (''LeeK'', mk_info ''Lee'' ''Kim'' ''K.'' ''Lab1'' ''not-provided'')])"

definition example_registry :: registry where
  "example_registry =
     \<lparr>affiliation_list = [''Lab1'', ''Lab2''],
      affil_str_to_affil_num_dict = [''Lab1'' \<mapsto> 1, ''Lab2'' \<mapsto> 2],
      affil_num_to_affil_str_dict = [1 \<mapsto> ''Lab1'', 2 \<mapsto> ''Lab2''],
      author_to_affil_num_list_dict = [''SmithJ'' \<mapsto> [1], ''DoeA'' \<mapsto> [2], ''LeeK'' \<mapsto> [1]]\<rparr>"

section \<open>Auxiliary notions for the proofs about strings\<close>

text \<open>
  The decimal digits of a natural number, most significant first, and the code points
  of the Unicode superscript digits zero to nine.
\<close>

function digits_of :: "nat \<Rightarrow> nat list" where
  "digits_of n = (if n < 10 then [n] else digits_of (n div 10) @ [n mod 10])"
  by pat_completeness auto
termination
  by (relation "measure id") auto

declare digits_of.simps [simp del]

definition superscript_digits :: "nat list" where
  "superscript_digits =
     [0x2070, 0xB9, 0xB2, 0xB3, 0x2074, 0x2075, 0x2076, 0x2077, 0x2078, 0x2079]"

text \<open>The entry of the affiliation output strings for the string at index \<open>i\<close>.\<close>

definition entry_of :: "registry \<Rightarrow> nat \<Rightarrow> string" where
  "entry_of reg i = py_str (int i + 1) @ ''-'' @ affiliation_list reg ! i"

section \<open>Auxiliary notions for the proofs about the submission\<close>

text \<open>
  The upload calls planned for a list of paths. Two outcomes of a call are the same
  but for what the run never reads when both raise the same exception, or both are
  responses, with the same JSON body unless the call is an upload.
\<close>

definition is_put_file :: "'m request \<Rightarrow> bool" where
  "is_put_file req = (case req of Put_file b f p t \<Rightarrow> True | _ \<Rightarrow> False)"



text \<open>
  Sample remotes and openers. The first remote fails every upload with status 500 and
  answers the other calls with the expected body; the second answers every call with
  status 401 and an error body; the third answers every call with status 503 and the
  expected body; the fourth answers the create call with a bucket value that is not a
  URL, and the library then raises at the upload. \<open>opens\<close> opens every file,
  \<open>locked\<close> none.
\<close>

definition ok_body :: json where
  "ok_body =
     JObj [(''id'', JNum 42),
           (''links'', JObj [(''bucket'', JStr ''https://b''), (''html'', JStr ''https://h'')])]"

definition failing_uploads :: "unit remote" where
  "failing_uploads made req =
     (if is_put_file req then Inr \<lparr>status_code = 500, body = None\<rparr>
      else Inr \<lparr>status_code = 200, body = Some ok_body\<rparr>)"




definition opens :: "unit opener" where
  "opens made path = None"


section \<open>The author order: properties of the passes\<close>

lemma ordinary_pass_append:
  "distinct (map name_key df) \<Longrightarrow>
   ordinary_pass c df acc =
     acc @ map name_key (filter (\<lambda>r. name_key r \<notin> set acc \<and> 0 < cell r c
        \<and> cell r Scientific_Directors = 0 \<and> cell r Contributing_3 = 0) df)"
proof (induction df arbitrary: acc)
  case Nil
  then show ?case by simp
next
  case (Cons r rs)
  have fresh: "name_key r' \<noteq> name_key r" if "r' \<in> set rs" for r'
    using Cons.prems that by (force simp: image_iff)
  have d: "distinct (map name_key rs)" using Cons.prems by simp
  show ?case
  proof (cases "name_key r \<notin> set acc \<and> 0 < cell r c
         \<and> cell r Scientific_Directors = 0 \<and> cell r Contributing_3 = 0")
    case True
    have "filter (\<lambda>r'. name_key r' \<notin> set (acc @ [name_key r]) \<and> 0 < cell r' c
        \<and> cell r' Scientific_Directors = 0 \<and> cell r' Contributing_3 = 0) rs
      = filter (\<lambda>r'. name_key r' \<notin> set acc \<and> 0 < cell r' c
        \<and> cell r' Scientific_Directors = 0 \<and> cell r' Contributing_3 = 0) rs"
      by (rule filter_cong) (auto dest: fresh)
    with True Cons.IH [OF d, of "acc @ [name_key r]"] show ?thesis by simp
  next
    case False
    with Cons.IH [OF d, of acc] show ?thesis by auto
  qed
qed

lemma override_pass_append:
  "distinct (map name_key df) \<Longrightarrow>
   override_pass c df acc =
     acc @ map name_key (filter (\<lambda>r. name_key r \<notin> set acc \<and> 0 < cell r c) df)"
proof (induction df arbitrary: acc)
  case Nil
  then show ?case by simp
next
  case (Cons r rs)
  have fresh: "name_key r' \<noteq> name_key r" if "r' \<in> set rs" for r'
    using Cons.prems that by (force simp: image_iff)
  have d: "distinct (map name_key rs)" using Cons.prems by simp
  show ?case
  proof (cases "name_key r \<notin> set acc \<and> 0 < cell r c")
    case True
    have "filter (\<lambda>r'. name_key r' \<notin> set (acc @ [name_key r]) \<and> 0 < cell r' c) rs
      = filter (\<lambda>r'. name_key r' \<notin> set acc \<and> 0 < cell r' c) rs"
      by (rule filter_cong) (auto dest: fresh)
    with True Cons.IH [OF d, of "acc @ [name_key r]"] show ?thesis by simp
  next
    case False
    with Cons.IH [OF d, of acc] show ?thesis by auto
  qed
qed

lemma one_pass_append:
  "distinct (map name_key df) \<Longrightarrow>
   one_pass c df acc =
     acc @ map name_key (filter (\<lambda>r. name_key r \<notin> set acc \<and> eligible c r) df)"
  by (simp add: one_pass_def eligible_def ordinary_pass_append override_pass_append)

lemma category_loop_one_pass:
  "category_loop (c # cs) df acc = category_loop cs df (one_pass c df acc)"
  by (simp add: one_pass_def)



lemma set_one_pass:
  "distinct (map name_key df) \<Longrightarrow>
   set (one_pass c df acc) = set acc \<union> name_key ` {r \<in> set df. eligible c r}"
  by (auto simp: one_pass_append)

lemma distinct_one_pass:
  "distinct (map name_key df) \<Longrightarrow> distinct acc \<Longrightarrow> distinct (one_pass c df acc)"
  by (auto simp: one_pass_append distinct_map intro: inj_on_subset)

lemma set_category_loop:
  "distinct (map name_key df) \<Longrightarrow>
   set (category_loop cs df acc) =
     set acc \<union> name_key ` {r \<in> set df. \<exists>c \<in> set cs. eligible c r}"
proof (induction cs arbitrary: acc)
  case Nil
  then show ?case by simp
next
  case (Cons c cs)
  show ?case
    unfolding category_loop_one_pass Cons.IH [OF Cons.prems] set_one_pass [OF Cons.prems]
    by auto
qed

lemma distinct_category_loop:
  "distinct (map name_key df) \<Longrightarrow> distinct acc \<Longrightarrow> distinct (category_loop cs df acc)"
proof (induction cs arbitrary: acc)
  case Nil
  then show ?case by simp
next
  case (Cons c cs)
  then show ?case
    unfolding category_loop_one_pass by (blast intro: distinct_one_pass)
qed





text \<open>What a successful return of \<open>make_author_order\<close> says about the frame.\<close>

lemma make_author_order_InrD:
  assumes "make_author_order sheet = Inr order"
  shows "distinct (map name_key (filtered_rows sheet))"
    and "order = category_loop author_categories (filtered_rows sheet) []"
    and "length order = length (filtered_rows sheet)"
  using assms
  by (auto simp: make_author_order_def name_index_def Let_def card_distinct
      split: if_splits sum.splits)

lemma all_rows_placed:
  assumes d: "distinct (map name_key df)"
    and len: "length (category_loop cs df []) = length df"
  shows "set (category_loop cs df []) = name_key ` set df"
proof -
  have sub: "set (category_loop cs df []) \<subseteq> name_key ` set df"
    by (auto simp: set_category_loop [OF d])
  have "distinct (category_loop cs df [])"
    by (rule distinct_category_loop [OF d]) simp
  then have "card (set (category_loop cs df [])) = length df"
    using len by (simp add: distinct_card)
  also have "\<dots> = card (name_key ` set df)"
    using d by (metis distinct_card length_map set_map)
  finally show ?thesis
    using sub by (simp add: card_subset_eq)
qed


lemma name_index_InrD:
  "name_index df = Inr idx \<Longrightarrow> idx = map name_key df"
  by (auto simp: name_index_def split: if_splits)


lemma count_list_distinct:
  "distinct xs \<Longrightarrow> x \<in> set xs \<Longrightarrow> count_list xs x = 1"
  by (induction xs) (auto simp: count_list_0_iff)

text \<open>
  Claim C2. Let the filtered rows (\<open>sum > 0\<close>) have pairwise different author keys.
  Then \<open>make_author_order\<close> either returns the list the loops built, and that list
  has the length of the filtered table, has no duplicates, covers exactly the keys of
  the filtered rows, and holds each of them exactly once; or it fails with the
  assertion error, and then the loops had left out the key of some filtered row. No
  list that drops an author is ever returned.
\<close>

theorem author_order_exactly_once_or_abort:
  assumes idx: "name_index (filtered_rows sheet) = Inr idx" and uniq: "distinct idx"
  shows "case make_author_order sheet of
           Inr order \<Rightarrow>
             order = category_loop author_categories (filtered_rows sheet) []
             \<and> length order = length (filtered_rows sheet)
             \<and> distinct order \<and> set order = set idx
             \<and> list_all (\<lambda>k. count_list order k = 1) idx
         | Inl e \<Rightarrow>
             e = AssertionError
             \<and> list_ex (\<lambda>k. count_list
                   (category_loop author_categories (filtered_rows sheet) []) k = 0) idx"
proof -
  let ?df = "filtered_rows sheet"
  let ?loop = "category_loop author_categories ?df []"
  have idx_eq: "idx = map name_key ?df" by (rule name_index_InrD [OF idx])
  have d: "distinct (map name_key ?df)" using uniq idx_eq by simp
  have dl: "distinct ?loop" by (rule distinct_category_loop [OF d]) simp
  have card: "length idx = card (set idx)" using uniq by (simp add: distinct_card)
  have run: "make_author_order sheet =
      (if length ?loop = length ?df then Inr ?loop else Inl AssertionError)"
    using idx card by (simp add: make_author_order_def Let_def)
  show ?thesis
  proof (cases "length ?loop = length ?df")
    case True
    have s: "set ?loop = set idx"
      using all_rows_placed [OF d True] idx_eq by simp
    have "list_all (\<lambda>k. count_list ?loop k = 1) idx"
      using s dl by (simp add: list_all_iff count_list_distinct)
    with True s dl run show ?thesis by simp
  next
    case False
    have sub: "set ?loop \<subseteq> set idx"
      unfolding idx_eq by (auto simp: set_category_loop [OF d])
    have "set ?loop \<noteq> set idx"
    proof
      assume "set ?loop = set idx"
      then have "card (set ?loop) = card (set idx)" by simp
      then have "length ?loop = length idx"
        using dl uniq by (simp add: distinct_card)
      with False idx_eq show False by simp
    qed
    with sub obtain k where "k \<in> set idx" "k \<notin> set ?loop" by blast
    then have "list_ex (\<lambda>k. count_list ?loop k = 0) idx"
      by (auto simp: list_ex_iff count_list_0_iff)
    with False run show ?thesis by simp
  qed
qed

lemma example_sheet_order:
  "make_author_order example_sheet = Inr [''SmithJ'', ''DoeA'', ''LeeK'']"
  by (simp add: make_author_order_def filtered_rows_def name_index_def name_key_def
      example_sheet_def mk_row_def author_categories_def)


theorem author_order_exactly_once_or_abort_witness:
  "name_index (filtered_rows example_sheet) = Inr [''SmithJ'', ''LeeK'', ''DoeA'']
   \<and> distinct [''SmithJ'', ''LeeK'', ''DoeA'']
   \<and> make_author_order example_sheet = Inr [''SmithJ'', ''DoeA'', ''LeeK'']
   \<and> list_all (\<lambda>k. count_list [''SmithJ'', ''DoeA'', ''LeeK''] k = 1)
        [''SmithJ'', ''LeeK'', ''DoeA'']
   \<and> name_index (filtered_rows unplaced_sheet) = Inr [''SmithJ'', ''RoeM'']
   \<and> distinct [''SmithJ'', ''RoeM'']
   \<and> make_author_order unplaced_sheet = Inl AssertionError
   \<and> list_ex (\<lambda>k. count_list
         (category_loop author_categories (filtered_rows unplaced_sheet) []) k = 0)
        [''SmithJ'', ''RoeM'']"
proof -
  have i: "name_index (filtered_rows example_sheet) = Inr [''SmithJ'', ''LeeK'', ''DoeA'']"
    by (simp add: filtered_rows_def name_index_def name_key_def example_sheet_def mk_row_def)
  have d: "distinct [''SmithJ'', ''LeeK'', ''DoeA'']" by simp
  have i': "name_index (filtered_rows unplaced_sheet) = Inr [''SmithJ'', ''RoeM'']"
    by (simp add: filtered_rows_def name_index_def name_key_def unplaced_sheet_def mk_row_def)
  have d': "distinct [''SmithJ'', ''RoeM'']" by simp
  have u: "make_author_order unplaced_sheet = Inl AssertionError"
    by (simp add: make_author_order_def filtered_rows_def name_index_def name_key_def
      unplaced_sheet_def mk_row_def author_categories_def)
  have once: "list_all (\<lambda>k. count_list [''SmithJ'', ''DoeA'', ''LeeK''] k = 1)
      [''SmithJ'', ''LeeK'', ''DoeA'']"
    using author_order_exactly_once_or_abort [OF i d]
    unfolding example_sheet_order sum.case by blast
  have dropped: "list_ex (\<lambda>k. count_list
       (category_loop author_categories (filtered_rows unplaced_sheet) []) k = 0)
      [''SmithJ'', ''RoeM'']"
    using author_order_exactly_once_or_abort [OF i' d']
    unfolding u sum.case by blast
  from i d example_sheet_order once i' d' u dropped show ?thesis by blast
qed

section \<open>The affiliation registry: invariant of the loop\<close>

lemma registry_ok_empty: "registry_ok empty_registry"
  by (simp add: registry_ok_def empty_registry_def)

lemma registry_ok_number:
  assumes "registry_ok reg" and "s \<in> set (affiliation_list reg)"
  shows "\<exists>i < length (affiliation_list reg). affiliation_list reg ! i = s
     \<and> affil_str_to_affil_num_dict reg s = Some (int i + 1)"
  using assms by (auto simp: registry_ok_def in_set_conv_nth)

lemma record_affiliation_seen:
  assumes ok: "registry_ok reg" and s: "s \<in> set (affiliation_list reg)"
  shows "\<exists>n. affil_str_to_affil_num_dict reg s = Some n
     \<and> record_affiliation a s reg =
         Inr (reg\<lparr>author_to_affil_num_list_dict :=
                (author_to_affil_num_list_dict reg)(a \<mapsto>
                   defaultdict_get (author_to_affil_num_list_dict reg) a @ [n])\<rparr>)"
  using registry_ok_number [OF ok s] s by (auto simp: record_affiliation_def)

lemma record_affiliation_new:
  assumes s: "s \<notin> set (affiliation_list reg)"
  shows "record_affiliation a s reg =
     Inr (reg\<lparr>affiliation_list := affiliation_list reg @ [s],
            affil_str_to_affil_num_dict :=
              (affil_str_to_affil_num_dict reg)(s \<mapsto> int (length (affiliation_list reg)) + 1),
            author_to_affil_num_list_dict :=
              (author_to_affil_num_list_dict reg)(a \<mapsto>
                 defaultdict_get (author_to_affil_num_list_dict reg) a
                   @ [int (length (affiliation_list reg)) + 1]),
            affil_num_to_affil_str_dict :=
              (affil_num_to_affil_str_dict reg)(int (length (affiliation_list reg)) + 1 \<mapsto> s)\<rparr>)"
  using s by (simp add: record_affiliation_def Let_def add.commute)

lemma registry_ok_new:
  assumes ok: "registry_ok reg" and s: "s \<notin> set (affiliation_list reg)"
  shows "registry_ok
     (reg\<lparr>affiliation_list := affiliation_list reg @ [s],
          affil_str_to_affil_num_dict :=
            (affil_str_to_affil_num_dict reg)(s \<mapsto> int (length (affiliation_list reg)) + 1),
          author_to_affil_num_list_dict := d,
          affil_num_to_affil_str_dict :=
            (affil_num_to_affil_str_dict reg)(int (length (affiliation_list reg)) + 1 \<mapsto> s)\<rparr>)"
  using ok s
  by (auto simp: registry_ok_def nth_append less_Suc_eq)

lemma registry_ok_authors:
  "registry_ok reg \<Longrightarrow> registry_ok (reg\<lparr>author_to_affil_num_list_dict := d\<rparr>)"
  by (simp add: registry_ok_def)

text \<open>One step: the effect of recording one affiliation string for one author.\<close>

lemma record_affiliation_step:
  assumes ok: "registry_ok reg"
  shows "\<exists>reg' n. record_affiliation a s reg = Inr reg' \<and> registry_ok reg'
     \<and> affiliation_list reg' =
         (if s \<in> set (affiliation_list reg) then affiliation_list reg
          else affiliation_list reg @ [s])
     \<and> affil_str_to_affil_num_dict reg' s = Some n
     \<and> author_to_affil_num_list_dict reg' =
         (author_to_affil_num_list_dict reg)(a \<mapsto>
            defaultdict_get (author_to_affil_num_list_dict reg) a @ [n])"
proof (cases "s \<in> set (affiliation_list reg)")
  case True
  from record_affiliation_seen [OF ok True, of a] obtain n where
    n: "affil_str_to_affil_num_dict reg s = Some n"
    and r: "record_affiliation a s reg =
         Inr (reg\<lparr>author_to_affil_num_list_dict :=
                (author_to_affil_num_list_dict reg)(a \<mapsto>
                   defaultdict_get (author_to_affil_num_list_dict reg) a @ [n])\<rparr>)"
    by blast
  show ?thesis
    using True n r registry_ok_authors [OF ok] by simp
next
  case False
  show ?thesis
    using False record_affiliation_new [OF False, of a] registry_ok_new [OF ok False]
    by simp
qed


lemma affil_string_loop_single:
  "affil_string_loop a [s] reg = record_affiliation a s reg"
  by (simp split: sum.splits)

lemma looked_up_Nil: "looked_up df [] = []"
  by (simp add: looked_up_def map_filter_simps)

lemma looked_up_Cons:
  "looked_up df (a # as) =
     (case df a of None \<Rightarrow> looked_up df as | Some row \<Rightarrow> affiliation row # looked_up df as)"
  by (simp add: looked_up_def map_filter_simps split: option.splits)

lemma remdups_known:
  "s \<in> set zs \<Longrightarrow> remdups (ys @ s # zs) = remdups (ys @ zs)"
  by (induction ys) auto

lemma stable_number:
  assumes ok: "registry_ok reg" and ok': "registry_ok reg'"
    and pre: "affiliation_list reg' = affiliation_list reg @ new"
    and n: "affil_str_to_affil_num_dict reg s = Some n"
  shows "affil_str_to_affil_num_dict reg' s = Some n"
proof -
  have "s \<in> set (affiliation_list reg)"
    using ok n by (auto simp: registry_ok_def)
  then obtain i where i: "i < length (affiliation_list reg)" "affiliation_list reg ! i = s"
    by (auto simp: in_set_conv_nth)
  then have "n = int i + 1" using ok n by (auto simp: registry_ok_def)
  moreover have "i < length (affiliation_list reg')" "affiliation_list reg' ! i = s"
    using i pre by (simp_all add: nth_append)
  ultimately show ?thesis using ok' by (auto simp: registry_ok_def)
qed

text \<open>The whole loop, from a registry that satisfies the invariant.\<close>

lemma author_loop_Inr:
  assumes "registry_ok reg" and "author_loop df author_order reg = Inr reg'"
  shows "registry_ok reg'
     \<and> affiliation_list reg' =
         rev (remdups (rev (affiliation_list reg @ looked_up df author_order)))
     \<and> (\<exists>new. affiliation_list reg' = affiliation_list reg @ new)
     \<and> (\<forall>a \<in> set author_order. df a \<noteq> None)
     \<and> (\<forall>a. \<exists>ns. defaultdict_get (author_to_affil_num_list_dict reg') a =
                    defaultdict_get (author_to_affil_num_list_dict reg) a @ ns
              \<and> list_all2
                  (\<lambda>b n. \<exists>row. df b = Some row
                     \<and> affil_str_to_affil_num_dict reg' (affiliation row) = Some n)
                  (filter (\<lambda>b. b = a) author_order) ns)"
  using assms
proof (induction author_order arbitrary: reg)
  case Nil
  then show ?case
    by (simp add: looked_up_Nil registry_ok_def distinct_remdups_id)
next
  case (Cons b bs)
  from Cons.prems(2) obtain row where row: "df b = Some row"
    by (auto split: option.splits)
  let ?s = "affiliation row"
  from record_affiliation_step [OF Cons.prems(1), of b ?s] obtain mid n where
    step: "record_affiliation b ?s reg = Inr mid" and okm: "registry_ok mid"
    and alm: "affiliation_list mid =
         (if ?s \<in> set (affiliation_list reg) then affiliation_list reg
          else affiliation_list reg @ [?s])"
    and nm: "affil_str_to_affil_num_dict mid ?s = Some n"
    and am: "author_to_affil_num_list_dict mid =
         (author_to_affil_num_list_dict reg)(b \<mapsto>
            defaultdict_get (author_to_affil_num_list_dict reg) b @ [n])"
    by blast
  have rest: "author_loop df bs mid = Inr reg'"
    using Cons.prems(2) row step by (simp add: affil_string_loop_single)
  note IH = Cons.IH [OF okm rest]
  from IH have ok': "registry_ok reg'" by blast
  from IH obtain new where new: "affiliation_list reg' = affiliation_list mid @ new"
    by blast
  have n': "affil_str_to_affil_num_dict reg' ?s = Some n"
    by (rule stable_number [OF okm ok' new nm])
  have al: "affiliation_list reg' =
      rev (remdups (rev (affiliation_list reg @ looked_up df (b # bs))))"
  proof (cases "?s \<in> set (affiliation_list reg)")
    case True
    with IH alm show ?thesis
      by (simp add: looked_up_Cons row remdups_known)
  next
    case False
    with IH alm show ?thesis
      by (simp add: looked_up_Cons row)
  qed
  have pre: "\<exists>new. affiliation_list reg' = affiliation_list reg @ new"
    using new alm by (auto split: if_splits)
  have res: "\<forall>a \<in> set (b # bs). df a \<noteq> None"
    using IH row by simp
  have auth: "\<exists>ns. defaultdict_get (author_to_affil_num_list_dict reg') a =
                    defaultdict_get (author_to_affil_num_list_dict reg) a @ ns
              \<and> list_all2
                  (\<lambda>b n. \<exists>row. df b = Some row
                     \<and> affil_str_to_affil_num_dict reg' (affiliation row) = Some n)
                  (filter (\<lambda>c. c = a) (b # bs)) ns" for a
  proof -
    from IH obtain ns where
      ns: "defaultdict_get (author_to_affil_num_list_dict reg') a =
             defaultdict_get (author_to_affil_num_list_dict mid) a @ ns"
      and rel: "list_all2
          (\<lambda>b n. \<exists>row. df b = Some row
             \<and> affil_str_to_affil_num_dict reg' (affiliation row) = Some n)
          (filter (\<lambda>c. c = a) bs) ns"
      by blast
    show ?thesis
    proof (cases "b = a")
      case True
      have "defaultdict_get (author_to_affil_num_list_dict reg') a =
          defaultdict_get (author_to_affil_num_list_dict reg) a @ (n # ns)"
        using ns am True by (simp add: defaultdict_get_def)
      moreover have "list_all2
          (\<lambda>b n. \<exists>row. df b = Some row
             \<and> affil_str_to_affil_num_dict reg' (affiliation row) = Some n)
          (filter (\<lambda>c. c = a) (b # bs)) (n # ns)"
        using rel True row n' by simp
      ultimately show ?thesis by blast
    next
      case False
      have "defaultdict_get (author_to_affil_num_list_dict reg') a =
          defaultdict_get (author_to_affil_num_list_dict reg) a @ ns"
        using ns am False by (simp add: defaultdict_get_def)
      moreover have "list_all2
          (\<lambda>b n. \<exists>row. df b = Some row
             \<and> affil_str_to_affil_num_dict reg' (affiliation row) = Some n)
          (filter (\<lambda>c. c = a) (b # bs)) ns"
        using rel False by simp
      ultimately show ?thesis by blast
    qed
  qed
  from ok' al pre res auth show ?case by blast
qed

text \<open>The loop fails only at an author the table does not resolve, and always there.\<close>

lemma author_loop_total:
  assumes "registry_ok reg" and "\<forall>a \<in> set author_order. df a \<noteq> None"
  shows "\<exists>reg'. author_loop df author_order reg = Inr reg'"
  using assms
proof (induction author_order arbitrary: reg)
  case Nil
  then show ?case by simp
next
  case (Cons b bs)
  from Cons.prems(2) obtain row where row: "df b = Some row" by auto
  from record_affiliation_step [OF Cons.prems(1), of b "affiliation row"] obtain mid where
    step: "record_affiliation b (affiliation row) reg = Inr mid" and okm: "registry_ok mid"
    by blast
  from Cons.IH [OF okm] Cons.prems(2) obtain reg' where "author_loop df bs mid = Inr reg'"
    by auto
  then show ?case
    using row step by (simp add: affil_string_loop_single)
qed

lemma author_loop_unresolved:
  assumes "registry_ok reg" and "a \<in> set author_order" and "df a = None"
  shows "\<exists>b \<in> set author_order. df b = None
     \<and> author_loop df author_order reg = Inl (RuntimeWarning (no_affiliation_message b))"
  using assms
proof (induction author_order arbitrary: reg)
  case Nil
  then show ?case by simp
next
  case (Cons b bs)
  show ?case
  proof (cases "df b")
    case None
    then show ?thesis by simp
  next
    case (Some row)
    with Cons.prems have a: "a \<in> set bs" by auto
    from record_affiliation_step [OF Cons.prems(1), of b "affiliation row"] obtain mid where
      step: "record_affiliation b (affiliation row) reg = Inr mid" and okm: "registry_ok mid"
      by blast
    from Cons.IH [OF okm a Cons.prems(3)] obtain c where
      "c \<in> set bs" "df c = None"
      "author_loop df bs mid = Inl (RuntimeWarning (no_affiliation_message c))"
      by blast
    then show ?thesis
      using Some step by (auto simp: affil_string_loop_single)
  qed
qed

section \<open>The affiliation registry: numbering, round trip, failure\<close>

lemma example_registry_built:
  "make_affiliations_dicts example_info [''SmithJ'', ''DoeA'', ''LeeK''] = Inr example_registry"
  by (simp add: make_affiliations_dicts_def example_info_def loc_ClayssenQ_def mk_info_def
      record_affiliation_def empty_registry_def defaultdict_get_def example_registry_def)


lemma make_affiliations_dicts_InrD:
  assumes "make_affiliations_dicts df author_order = Inr reg"
  shows "registry_ok reg"
    and "affiliation_list reg = rev (remdups (rev (looked_up df author_order)))"
    and "\<forall>a \<in> set author_order. df a \<noteq> None"
    and "list_all2
          (\<lambda>b n. \<exists>row. df b = Some row
             \<and> affil_str_to_affil_num_dict reg (affiliation row) = Some n)
          (filter (\<lambda>b. b = a) author_order)
          (defaultdict_get (author_to_affil_num_list_dict reg) a)"
proof -
  note L = author_loop_Inr [OF registry_ok_empty assms [unfolded make_affiliations_dicts_def]]
  show "registry_ok reg" using L by blast
  show "affiliation_list reg = rev (remdups (rev (looked_up df author_order)))"
    using L by (simp add: empty_registry_def)
  show "\<forall>a \<in> set author_order. df a \<noteq> None" using L by blast
  from L obtain ns where
    "defaultdict_get (author_to_affil_num_list_dict reg) a =
       defaultdict_get (author_to_affil_num_list_dict empty_registry) a @ ns"
    "list_all2
          (\<lambda>b n. \<exists>row. df b = Some row
             \<and> affil_str_to_affil_num_dict reg (affiliation row) = Some n)
          (filter (\<lambda>b. b = a) author_order) ns"
    by blast
  then show "list_all2
          (\<lambda>b n. \<exists>row. df b = Some row
             \<and> affil_str_to_affil_num_dict reg (affiliation row) = Some n)
          (filter (\<lambda>b. b = a) author_order)
          (defaultdict_get (author_to_affil_num_list_dict reg) a)"
    by (simp add: empty_registry_def defaultdict_get_def)
qed

lemma filter_eq_single:
  "distinct xs \<Longrightarrow> a \<in> set xs \<Longrightarrow> filter (\<lambda>b. b = a) xs = [a]"
  by (induction xs) (auto simp: filter_empty_conv)

text \<open>
  Claim C3 (what the code does). Whenever the author table does not resolve some key
  of the author order, \<open>make_affiliations_dicts\<close> does not return: it raises the
  \<^verbatim>\<open>RuntimeWarning\<close> of lines 374-375 for an unresolved author of the order. No
  registry is built, the author gets no empty list of numbers, and the numbering of
  the remaining authors does not proceed.
\<close>

theorem unresolved_author_raises:
  assumes "a \<in> set author_order" and "df a = None"
  shows "\<exists>b \<in> set author_order. df b = None
     \<and> make_affiliations_dicts df author_order =
         Inl (RuntimeWarning (no_affiliation_message b))"
  unfolding make_affiliations_dicts_def
  by (rule author_loop_unresolved [where df = df and a = a, OF registry_ok_empty assms])

theorem unresolved_author_raises_witness:
  "''RoeM'' \<in> set [''SmithJ'', ''RoeM'', ''DoeA''] \<and> example_info ''RoeM'' = None
   \<and> make_affiliations_dicts example_info [''SmithJ'', ''RoeM'', ''DoeA''] =
       Inl (RuntimeWarning
         (''An affiliation could not be found for RoeM'' @ [CHR 0x0A]
            @ ''No affiliation will be associated.''))"
proof -
  have m: "''RoeM'' \<in> set [''SmithJ'', ''RoeM'', ''DoeA'']" by simp
  have n: "example_info ''RoeM'' = None"
    by (simp add: example_info_def loc_ClayssenQ_def)
  have r: "example_info ''SmithJ'' \<noteq> None" "example_info ''DoeA'' \<noteq> None"
    by (simp_all add: example_info_def loc_ClayssenQ_def)
  from unresolved_author_raises [where df = example_info and a = "''RoeM''", OF m n] obtain b where
    b: "b \<in> set [''SmithJ'', ''RoeM'', ''DoeA'']" "example_info b = None"
    and e: "make_affiliations_dicts example_info [''SmithJ'', ''RoeM'', ''DoeA''] =
         Inl (RuntimeWarning (no_affiliation_message b))"
    by blast
  from b r have "b = ''RoeM''" by auto
  with e m n show ?thesis by (simp add: no_affiliation_message_def)
qed

text \<open>
  Claim C4. Let \<open>make_affiliations_dicts\<close> return a registry. Its affiliation list is
  the sequence of the affiliation strings met along the author order with every
  repetition after the first dropped (\<open>rev \<circ> remdups \<circ> rev\<close> keeps first
  occurrences), so numbers follow first-seen order. The string at index \<open>i\<close> has the
  number \<open>i + 1\<close>, recorded under the string in one dictionary and under the number
  in the other: numbering starts at 1 and takes the next integer at each new string.
  A string that was never met has no number. For every author, the list recorded under
  the author holds, for each occurrence of the author in the order, the number of the
  author's affiliation string: an author with an already-seen string re-uses the number
  that string has.
\<close>

theorem affiliation_numbers_first_seen:
  assumes "make_affiliations_dicts df author_order = Inr reg"
  shows "affiliation_list reg = rev (remdups (rev (looked_up df author_order)))
     \<and> (\<forall>i < length (affiliation_list reg).
          affil_str_to_affil_num_dict reg (affiliation_list reg ! i) = Some (int i + 1)
          \<and> affil_num_to_affil_str_dict reg (int i + 1) = Some (affiliation_list reg ! i))
     \<and> (\<forall>s. s \<notin> set (affiliation_list reg) \<longrightarrow> affil_str_to_affil_num_dict reg s = None)
     \<and> (\<forall>a. list_all2
          (\<lambda>b n. \<exists>row. df b = Some row
             \<and> affil_str_to_affil_num_dict reg (affiliation row) = Some n)
          (filter (\<lambda>b. b = a) author_order)
          (defaultdict_get (author_to_affil_num_list_dict reg) a))"
  using make_affiliations_dicts_InrD(1) [OF assms, unfolded registry_ok_def]
    make_affiliations_dicts_InrD(2) [OF assms] make_affiliations_dicts_InrD(4) [OF assms]
  by blast

theorem affiliation_numbers_first_seen_witness:
  "make_affiliations_dicts example_info [''SmithJ'', ''DoeA'', ''LeeK''] = Inr example_registry
   \<and> looked_up example_info [''SmithJ'', ''DoeA'', ''LeeK''] = [''Lab1'', ''Lab2'', ''Lab1'']
   \<and> affiliation_list example_registry = [''Lab1'', ''Lab2'']
   \<and> affil_str_to_affil_num_dict example_registry ''Lab1'' = Some 1
   \<and> affil_str_to_affil_num_dict example_registry ''Lab2'' = Some 2
   \<and> defaultdict_get (author_to_affil_num_list_dict example_registry) ''SmithJ'' = [1]
   \<and> defaultdict_get (author_to_affil_num_list_dict example_registry) ''DoeA'' = [2]
   \<and> defaultdict_get (author_to_affil_num_list_dict example_registry) ''LeeK'' = [1]"
proof -
  have lu: "looked_up example_info [''SmithJ'', ''DoeA'', ''LeeK''] = [''Lab1'', ''Lab2'', ''Lab1'']"
    by (simp add: looked_up_Cons looked_up_Nil example_info_def loc_ClayssenQ_def mk_info_def)
  note T = affiliation_numbers_first_seen [OF example_registry_built]
  from T have al: "affiliation_list example_registry = [''Lab1'', ''Lab2'']"
    unfolding lu by simp
  from T have "\<forall>i < length (affiliation_list example_registry).
      affil_str_to_affil_num_dict example_registry (affiliation_list example_registry ! i)
        = Some (int i + 1)"
    by blast
  then have n: "\<forall>i < 2. affil_str_to_affil_num_dict example_registry ([''Lab1'', ''Lab2''] ! i)
        = Some (int i + 1)"
    unfolding al by simp
  have n1: "affil_str_to_affil_num_dict example_registry ''Lab1'' = Some 1"
    using n [rule_format, of 0] by simp
  have n2: "affil_str_to_affil_num_dict example_registry ''Lab2'' = Some 2"
    using n [rule_format, of 1] by simp
  have a: "defaultdict_get (author_to_affil_num_list_dict example_registry) ''SmithJ'' = [1]"
      "defaultdict_get (author_to_affil_num_list_dict example_registry) ''DoeA'' = [2]"
      "defaultdict_get (author_to_affil_num_list_dict example_registry) ''LeeK'' = [1]"
    by (simp_all add: example_registry_def defaultdict_get_def)
  from example_registry_built lu al n1 n2 a show ?thesis by blast
qed

text \<open>
  Claim C7. In a registry returned by \<open>make_affiliations_dicts\<close>, every number \<open>n\<close>
  with \<open>1 \<le> n \<le> len(affiliation_list)\<close> has a string in the number-to-string
  dictionary, and the string-to-number dictionary maps that string back to \<open>n\<close>.
\<close>

theorem affiliation_number_round_trip:
  assumes "make_affiliations_dicts df author_order = Inr reg"
    and "1 \<le> n" and "n \<le> int (length (affiliation_list reg))"
  shows "\<exists>s. affil_num_to_affil_str_dict reg n = Some s
     \<and> affil_str_to_affil_num_dict reg s = Some n"
proof -
  have ok: "registry_ok reg" by (rule make_affiliations_dicts_InrD(1) [OF assms(1)])
  define i where "i = nat (n - 1)"
  have i: "i < length (affiliation_list reg)" and n: "n = int i + 1"
    using assms(2,3) by (simp_all add: i_def)
  from ok i have "affil_num_to_affil_str_dict reg (int i + 1) = Some (affiliation_list reg ! i)"
    and "affil_str_to_affil_num_dict reg (affiliation_list reg ! i) = Some (int i + 1)"
    by (simp_all add: registry_ok_def)
  then show ?thesis unfolding n by blast
qed

theorem affiliation_number_round_trip_witness:
  "make_affiliations_dicts example_info [''SmithJ'', ''DoeA'', ''LeeK''] = Inr example_registry
   \<and> (1::int) \<le> 2 \<and> 2 \<le> int (length (affiliation_list example_registry))
   \<and> affil_num_to_affil_str_dict example_registry 2 = Some ''Lab2''
   \<and> affil_str_to_affil_num_dict example_registry ''Lab2'' = Some 2"
proof -
  have b: "(1::int) \<le> 2" "2 \<le> int (length (affiliation_list example_registry))"
    by (simp_all add: example_registry_def)
  have s: "affil_num_to_affil_str_dict example_registry 2 = Some ''Lab2''"
    by (simp add: example_registry_def)
  from affiliation_number_round_trip [OF example_registry_built b]
  have "affil_str_to_affil_num_dict example_registry ''Lab2'' = Some 2"
    unfolding s by simp
  with example_registry_built b s show ?thesis by blast
qed

text \<open>
  Claim C9. For an author order returned by \<open>make_author_order\<close> and a registry
  returned by \<open>make_affiliations_dicts\<close> for it, the list of affiliation numbers of
  every author of the order has length exactly 1: its one element is the number of
  the author's whole affiliation cell.
\<close>

theorem one_affiliation_number_per_author:
  assumes "make_author_order sheet = Inr author_order"
    and "make_affiliations_dicts df author_order = Inr reg"
    and "a \<in> set author_order"
  shows "length (defaultdict_get (author_to_affil_num_list_dict reg) a) = 1
     \<and> (\<exists>row n. df a = Some row
          \<and> affil_str_to_affil_num_dict reg (affiliation row) = Some n
          \<and> defaultdict_get (author_to_affil_num_list_dict reg) a = [n])"
proof -
  have "distinct author_order"
    unfolding make_author_order_InrD(2) [OF assms(1)]
    by (rule distinct_category_loop [OF make_author_order_InrD(1) [OF assms(1)]]) simp
  then have "filter (\<lambda>b. b = a) author_order = [a]"
    using assms(3) by (rule filter_eq_single)
  with make_affiliations_dicts_InrD(4) [OF assms(2), of a]
  have "list_all2
          (\<lambda>b n. \<exists>row. df b = Some row
             \<and> affil_str_to_affil_num_dict reg (affiliation row) = Some n)
          [a] (defaultdict_get (author_to_affil_num_list_dict reg) a)"
    by simp
  then show ?thesis
    by (auto simp: list_all2_Cons1)
qed

theorem one_affiliation_number_per_author_witness:
  "make_author_order example_sheet = Inr [''SmithJ'', ''DoeA'', ''LeeK'']
   \<and> make_affiliations_dicts example_info [''SmithJ'', ''DoeA'', ''LeeK''] = Inr example_registry
   \<and> ''LeeK'' \<in> set [''SmithJ'', ''DoeA'', ''LeeK'']
   \<and> length (defaultdict_get (author_to_affil_num_list_dict example_registry) ''LeeK'') = 1"
proof -
  have m: "''LeeK'' \<in> set [''SmithJ'', ''DoeA'', ''LeeK'']" by simp
  from one_affiliation_number_per_author [OF example_sheet_order example_registry_built m]
  have "length (defaultdict_get (author_to_affil_num_list_dict example_registry) ''LeeK'') = 1"
    by blast
  with example_sheet_order example_registry_built m show ?thesis by blast
qed

section \<open>Superscript conversion\<close>

lemma str_nat_digits: "str_nat n = map digit_char (digits_of n)"
proof (induction n rule: str_nat.induct)
  case (1 n)
  show ?case
  proof (cases "n < 10")
    case True
    then show ?thesis by (simp add: str_nat.simps [of n] digits_of.simps [of n])
  next
    case False
    with "1" show ?thesis by (simp add: str_nat.simps [of n] digits_of.simps [of n])
  qed
qed

lemma digits_of_bound: "list_all (\<lambda>d. d < 10) (digits_of n)"
proof (induction n rule: digits_of.induct)
  case (1 n)
  show ?case
  proof (cases "n < 10")
    case True
    then show ?thesis by (simp add: digits_of.simps [of n])
  next
    case False
    with "1" show ?thesis by (simp add: digits_of.simps [of n])
  qed
qed

lemma digits_of_value: "foldl (\<lambda>a d. 10 * a + d) 0 (digits_of n) = n"
proof (induction n rule: digits_of.induct)
  case (1 n)
  show ?case
  proof (cases "n < 10")
    case True
    then show ?thesis by (simp add: digits_of.simps [of n])
  next
    case False
    with "1" show ?thesis by (simp add: digits_of.simps [of n])
  qed
qed

lemma digits_of_nonempty: "digits_of n \<noteq> []"
  by (simp add: digits_of.simps [of n])

lemma digits_of_leading: "0 < n \<Longrightarrow> hd (digits_of n) \<noteq> 0"
proof (induction n rule: digits_of.induct)
  case (1 n)
  show ?case
  proof (cases "n < 10")
    case True
    with "1.prems" show ?thesis by (simp add: digits_of.simps [of n])
  next
    case False
    then have "0 < n div 10" by simp
    with "1.IH" [OF False] False show ?thesis
      by (simp add: digits_of.simps [of n] digits_of_nonempty)
  qed
qed

lemma sup_map_digit:
  assumes "d < 10"
  shows "sup_map (digit_char d) = Some (superscript_digits ! d)"
proof -
  have "d = 0 \<or> d = 1 \<or> d = 2 \<or> d = 3 \<or> d = 4 \<or> d = 5 \<or> d = 6 \<or> d = 7 \<or> d = 8 \<or> d = 9"
    using assms by arith
  then show ?thesis
    by (elim disjE) (simp_all add: sup_map_def digit_char_def superscript_digits_def)
qed

lemma sup_loop_digits:
  "list_all (\<lambda>d. d < 10) ds \<Longrightarrow>
   sup_loop (map digit_char ds) acc = Inr (acc @ map (\<lambda>d. superscript_digits ! d) ds)"
  by (induction ds arbitrary: acc) (simp_all add: sup_map_digit)

lemma sup_map_minus: "sup_map (CHR ''-'') = None"
  by (simp add: sup_map_def)

text \<open>
  Claim C8. For every positive integer \<open>n\<close>, \<^verbatim>\<open>str(n)\<close> is the sequence of the
  decimal digits of \<open>n\<close> (each below ten, no leading zero, of value \<open>n\<close>) as ASCII
  characters, no lookup in \<^verbatim>\<open>sup_map\<close> fails, and the result is the sequence of the
  corresponding Unicode superscript digits in the same order. No sign is handled: a
  negative number raises \<^verbatim>\<open>KeyError\<close> at the minus sign. In particular
  \<open>superscript 12\<close> is U+00B9 U+00B2 and \<open>superscript 7\<close> is U+2077.
\<close>

theorem superscript_digitwise:
  "(0 < n \<longrightarrow>
      py_str n = map digit_char (digits_of (nat n))
      \<and> list_all (\<lambda>d. d < 10) (digits_of (nat n))
      \<and> hd (digits_of (nat n)) \<noteq> 0
      \<and> foldl (\<lambda>a d. 10 * a + d) 0 (digits_of (nat n)) = nat n
      \<and> superscript n = Inr (map (\<lambda>d. superscript_digits ! d) (digits_of (nat n))))
   \<and> (n < 0 \<longrightarrow> superscript n = Inl (KeyError ''-''))
   \<and> superscript 12 = Inr [0xB9, 0xB2]
   \<and> superscript 7 = Inr [0x2077]"
proof -
  have pos: "py_str n = map digit_char (digits_of (nat n))
      \<and> list_all (\<lambda>d. d < 10) (digits_of (nat n))
      \<and> hd (digits_of (nat n)) \<noteq> 0
      \<and> foldl (\<lambda>a d. 10 * a + d) 0 (digits_of (nat n)) = nat n
      \<and> superscript n = Inr (map (\<lambda>d. superscript_digits ! d) (digits_of (nat n)))"
    if "0 < n"
  proof -
    have p: "py_str n = map digit_char (digits_of (nat n))"
      using that by (simp add: py_str_def str_nat_digits)
    have s: "superscript n = Inr (map (\<lambda>d. superscript_digits ! d) (digits_of (nat n)))"
      unfolding superscript_def p
      using sup_loop_digits [OF digits_of_bound, of "nat n" "[]"] by simp
    from that have "0 < nat n" by simp
    with p s digits_of_bound digits_of_value digits_of_leading show ?thesis by blast
  qed
  have neg: "superscript n = Inl (KeyError ''-'')" if "n < 0"
    using that by (simp add: superscript_def py_str_def sup_map_minus)
  have e12: "superscript 12 = Inr [0xB9, 0xB2]"
    by (simp add: superscript_def py_str_def str_nat.simps digit_char_def sup_map_def)
  have e7: "superscript 7 = Inr [0x2077]"
    by (simp add: superscript_def py_str_def str_nat.simps digit_char_def sup_map_def)
  from pos neg e12 e7 show ?thesis by blast
qed

theorem superscript_digitwise_witness:
  "(0::int) < 305 \<and> py_str 305 = ''305'' \<and> digits_of (nat 305) = [3, 0, 5]
   \<and> superscript 305 = Inr [0xB3, 0x2070, 0x2075]
   \<and> (-4::int) < 0 \<and> superscript (-4) = Inl (KeyError ''-'')"
proof -
  have d: "digits_of (nat 305) = [3, 0, 5]"
    by (simp add: digits_of.simps)
  have p: "py_str 305 = ''305''"
    by (simp add: py_str_def str_nat.simps digit_char_def)
  have h: "(0::int) < 305" "(-4::int) < 0" by simp_all
  from superscript_digitwise [of 305] h
  have "superscript 305 = Inr (map (\<lambda>d. superscript_digits ! d) (digits_of (nat 305)))"
    by blast
  then have s: "superscript 305 = Inr [0xB3, 0x2070, 0x2075]"
    unfolding d by (simp add: superscript_digits_def)
  from superscript_digitwise [of "-4"] h have n: "superscript (-4) = Inl (KeyError ''-'')"
    by blast
  from h p d s n show ?thesis by blast
qed

section \<open>The sentinel \<^verbatim>\<open>not-provided\<close> in the registry and the outputs\<close>

lemma affiliation_entries_ok:
  assumes "registry_ok reg"
  shows "list_all (\<lambda>i. i < length (affiliation_list reg)) is \<Longrightarrow>
     affiliation_entries reg is = Inr (map (entry_of reg) is)"
  using assms
  by (induction "is") (simp_all add: registry_ok_def entry_of_def)

lemma join_sublist: "x \<in> set xs \<Longrightarrow> sublist x (join sep xs)"
proof (induction sep xs rule: join.induct)
  case (1 sep)
  then show ?case by simp
next
  case (2 sep s)
  then show ?case by simp
next
  case (3 sep s t ts)
  show ?case
  proof (cases "x = s")
    case True
    then show ?thesis by simp
  next
    case False
    with "3.prems" have "x \<in> set (t # ts)" by simp
    then have "sublist x (join sep (t # ts))" by (rule "3.IH")
    then obtain ps ss where "join sep (t # ts) = ps @ x @ ss"
      by (auto simp: sublist_def)
    then have "join sep (s # t # ts) = (s @ sep @ ps) @ x @ ss" by simp
    then show ?thesis unfolding sublist_def by blast
  qed
qed

lemma create_affiliation_strings_ok:
  assumes "registry_ok reg"
  shows "create_affiliation_strings reg =
     Inr (join ('';'' @ [CHR 0x0A]) (map (entry_of reg) [0..<length (affiliation_list reg)]),
          join ''; '' (map (entry_of reg) [0..<length (affiliation_list reg)]))"
proof -
  have "list_all (\<lambda>i. i < length (affiliation_list reg)) [0..<length (affiliation_list reg)]"
    by (simp add: list_all_iff)
  from affiliation_entries_ok [OF assms this] show ?thesis
    by (simp add: create_affiliation_strings_def)
qed

lemma make_creator_array_ok:
  "\<forall>a \<in> set author_order. df a \<noteq> None \<Longrightarrow>
   \<exists>cs. make_creator_array df author_order = Inr cs
     \<and> list_all2 (\<lambda>b c. \<exists>r. df b = Some r \<and> c = author_dict r) author_order cs"
  by (induction author_order) auto


lemma example_registry4_built:
  "make_affiliations_dicts example_info [''SmithJ'', ''DoeA'', ''LeeK'', ''ClayssenQ''] =
     Inr (example_registry
       \<lparr>affiliation_list := [''Lab1'', ''Lab2'', ''not-provided''],
        affil_str_to_affil_num_dict :=
          [''Lab1'' \<mapsto> 1, ''Lab2'' \<mapsto> 2, ''not-provided'' \<mapsto> 3],
        affil_num_to_affil_str_dict := [1 \<mapsto> ''Lab1'', 2 \<mapsto> ''Lab2'', 3 \<mapsto> ''not-provided''],
        author_to_affil_num_list_dict :=
          [''SmithJ'' \<mapsto> [1], ''DoeA'' \<mapsto> [2], ''LeeK'' \<mapsto> [1], ''ClayssenQ'' \<mapsto> [3]]\<rparr>)"
  by (simp add: make_affiliations_dicts_def example_info_def loc_ClayssenQ_def mk_info_def
      record_affiliation_def empty_registry_def defaultdict_get_def example_registry_def)

text \<open>
  Claim C10. Let \<open>make_affiliations_dicts\<close> return a registry, and let an author of
  the order have the affiliation cell \<^verbatim>\<open>'not-provided'\<close>. Then that literal string is
  in the affiliation list, it has a number \<open>n \<ge> 1\<close> in both dictionaries, \<open>n\<close> is among
  the author's affiliation numbers, and the entry \<^verbatim>\<open>n-not-provided\<close> occurs in both
  affiliation output strings. The creator array is built from \<open>author_dict\<close> of each
  author's row, and \<open>author_dict\<close> of this author's row has no affiliation: only there
  is the sentinel filtered out.
\<close>

theorem sentinel_affiliation_is_numbered:
  assumes built: "make_affiliations_dicts df author_order = Inr reg"
    and a: "a \<in> set author_order"
    and row: "df a = Some row"
    and sentinel: "affiliation row = ''not-provided''"
  shows "''not-provided'' \<in> set (affiliation_list reg)
     \<and> (\<exists>n. 1 \<le> n
          \<and> affil_str_to_affil_num_dict reg ''not-provided'' = Some n
          \<and> affil_num_to_affil_str_dict reg n = Some ''not-provided''
          \<and> n \<in> set (defaultdict_get (author_to_affil_num_list_dict reg) a)
          \<and> (\<exists>new_lines one_line.
                create_affiliation_strings reg = Inr (new_lines, one_line)
                \<and> sublist (py_str n @ ''-not-provided'') new_lines
                \<and> sublist (py_str n @ ''-not-provided'') one_line))
     \<and> (\<exists>creator_array. make_creator_array df author_order = Inr creator_array
          \<and> list_all2 (\<lambda>b c. \<exists>r. df b = Some r \<and> c = author_dict r)
               author_order creator_array
          \<and> creator_affiliation (author_dict row) = None)"
proof -
  note ok = make_affiliations_dicts_InrD(1) [OF built]
  let ?al = "affiliation_list reg"
  let ?ns = "defaultdict_get (author_to_affil_num_list_dict reg) a"
  have rel: "list_all2
      (\<lambda>b n. \<exists>row. df b = Some row
         \<and> affil_str_to_affil_num_dict reg (affiliation row) = Some n)
      (filter (\<lambda>b. b = a) author_order) ?ns"
    by (rule make_affiliations_dicts_InrD(4) [OF built])
  have "filter (\<lambda>b. b = a) author_order \<noteq> []"
    using a by (auto simp: filter_empty_conv)
  then obtain b bs where f: "filter (\<lambda>b. b = a) author_order = b # bs"
    by (cases "filter (\<lambda>b. b = a) author_order") auto
  then have "b \<in> set (filter (\<lambda>b. b = a) author_order)" by simp
  then have b: "b = a" by simp
  from rel obtain n ns where ns: "?ns = n # ns"
    and "\<exists>row. df b = Some row \<and> affil_str_to_affil_num_dict reg (affiliation row) = Some n"
    unfolding f by (auto simp: list_all2_Cons1)
  then have num: "affil_str_to_affil_num_dict reg ''not-provided'' = Some n"
    using b row sentinel by auto
  have mem: "''not-provided'' \<in> set ?al"
    using ok num by (auto simp: registry_ok_def)
  then obtain i where i: "i < length ?al" "?al ! i = ''not-provided''"
    by (auto simp: in_set_conv_nth)
  with ok num have n: "n = int i + 1" by (auto simp: registry_ok_def)
  have bk: "affil_num_to_affil_str_dict reg n = Some ''not-provided''"
    using ok i n by (auto simp: registry_ok_def)
  have inn: "n \<in> set ?ns" using ns by simp
  have entry: "py_str n @ ''-not-provided'' \<in> set (map (entry_of reg) [0..<length ?al])"
    using i n by (auto simp: entry_of_def image_iff intro!: bexI [of _ i])
  have strings: "\<exists>new_lines one_line.
      create_affiliation_strings reg = Inr (new_lines, one_line)
      \<and> sublist (py_str n @ ''-not-provided'') new_lines
      \<and> sublist (py_str n @ ''-not-provided'') one_line"
    unfolding create_affiliation_strings_ok [OF ok]
    using join_sublist [OF entry] by blast
  have creators: "\<exists>creator_array. make_creator_array df author_order = Inr creator_array
      \<and> list_all2 (\<lambda>b c. \<exists>r. df b = Some r \<and> c = author_dict r) author_order creator_array"
    by (rule make_creator_array_ok [OF make_affiliations_dicts_InrD(3) [OF built]])
  have none: "creator_affiliation (author_dict row) = None"
    using sentinel by (simp add: author_dict_def)
  from mem num bk inn strings creators none n show ?thesis by auto
qed

theorem sentinel_affiliation_is_numbered_witness:
  "(\<exists>reg. make_affiliations_dicts example_info [''SmithJ'', ''DoeA'', ''LeeK'', ''ClayssenQ'']
        = Inr reg
      \<and> affiliation_list reg = [''Lab1'', ''Lab2'', ''not-provided'']
      \<and> defaultdict_get (author_to_affil_num_list_dict reg) ''ClayssenQ'' = [3]
      \<and> create_affiliation_strings reg =
          Inr (''1-Lab1;'' @ [CHR 0x0A] @ ''2-Lab2;'' @ [CHR 0x0A] @ ''3-not-provided'',
               ''1-Lab1; 2-Lab2; 3-not-provided'')
      \<and> ''not-provided'' \<in> set (affiliation_list reg))
   \<and> ''ClayssenQ'' \<in> set [''SmithJ'', ''DoeA'', ''LeeK'', ''ClayssenQ'']
   \<and> (\<exists>row. example_info ''ClayssenQ'' = Some row \<and> affiliation row = ''not-provided''
        \<and> creator_affiliation (author_dict row) = None)"
proof -
  let ?reg = "example_registry
       \<lparr>affiliation_list := [''Lab1'', ''Lab2'', ''not-provided''],
        affil_str_to_affil_num_dict :=
          [''Lab1'' \<mapsto> 1, ''Lab2'' \<mapsto> 2, ''not-provided'' \<mapsto> 3],
        affil_num_to_affil_str_dict := [1 \<mapsto> ''Lab1'', 2 \<mapsto> ''Lab2'', 3 \<mapsto> ''not-provided''],
        author_to_affil_num_list_dict :=
          [''SmithJ'' \<mapsto> [1], ''DoeA'' \<mapsto> [2], ''LeeK'' \<mapsto> [1], ''ClayssenQ'' \<mapsto> [3]]\<rparr>"
  let ?row = "\<lparr>info_last_name = ''Clayssen'', info_first_name = ''Quentin'',
         first_name_initials = ''C.'', affiliation = ''not-provided'',
         ORCID = ''not-provided''\<rparr>"
  have m: "''ClayssenQ'' \<in> set [''SmithJ'', ''DoeA'', ''LeeK'', ''ClayssenQ'']" by simp
  have r: "example_info ''ClayssenQ'' = Some ?row"
    by (simp add: example_info_def loc_ClayssenQ_def)
  have s: "affiliation ?row = ''not-provided''" by simp
  note T = sentinel_affiliation_is_numbered [OF example_registry4_built m r s]
  have al: "affiliation_list ?reg = [''Lab1'', ''Lab2'', ''not-provided'']" by simp
  have ns: "defaultdict_get (author_to_affil_num_list_dict ?reg) ''ClayssenQ'' = [3]"
    by (simp add: defaultdict_get_def)
  have cs: "create_affiliation_strings ?reg =
      Inr (''1-Lab1;'' @ [CHR 0x0A] @ ''2-Lab2;'' @ [CHR 0x0A] @ ''3-not-provided'',
           ''1-Lab1; 2-Lab2; 3-not-provided'')"
    by (simp add: create_affiliation_strings_def upt_rec py_str_def str_nat.simps
        digit_char_def)
  from T have "''not-provided'' \<in> set (affiliation_list ?reg)"
    and "creator_affiliation (author_dict ?row) = None"
    by blast+
  with example_registry4_built al ns cs m r s show ?thesis by blast
qed

section \<open>The check of the data files\<close>

lemma split_acc_nonempty: "split_acc sep cur s \<noteq> []"
  by (induction s arbitrary: cur) simp_all

lemma join_split_acc: "join [sep] (split_acc sep cur s) = cur @ s"
proof (induction s arbitrary: cur)
  case Nil
  then show ?case by simp
next
  case (Cons c cs)
  show ?case
  proof (cases "c = sep")
    case True
    obtain p ps where p: "split_acc sep [] cs = p # ps"
      using split_acc_nonempty [of sep "[]" cs] by (cases "split_acc sep [] cs") auto
    have "join [sep] (cur # p # ps) = cur @ [sep] @ join [sep] (p # ps)" by simp
    also have "join [sep] (p # ps) = cs" using Cons.IH [of "[]"] p by simp
    finally show ?thesis using True p by simp
  next
    case False
    then show ?thesis using Cons.IH [of "cur @ [c]"] by simp
  qed
qed

lemma join_split: "join [sep] (split s sep) = s"
  by (simp add: split_def join_split_acc)

lemma split_nonempty: "split s sep \<noteq> []"
  by (simp add: split_def split_acc_nonempty)

lemma sublist_join: "x \<in> set xs \<Longrightarrow> sublist x (pre @ join sep xs)"
proof -
  assume "x \<in> set xs"
  then obtain ps ss where "join sep xs = ps @ x @ ss"
    using join_sublist [of x xs sep] by (auto simp: sublist_def)
  then have "pre @ join sep xs = (pre @ ps) @ x @ ss" by simp
  then show ?thesis unfolding sublist_def by blast
qed

text \<open>
  Claim C6. Let a non-empty string of comma-separated paths be supplied. If at least
  one of the paths is not a file on disk, \<^verbatim>\<open>_get_and_check_datafile_paths\<close> raises a
  \<^verbatim>\<open>FileNotFoundError\<close> whose message is built from all the missing paths, in the
  order given: every supplied path that is not a file occurs in the message, after a
  tab; and the submission path ends with that error having made no request. If every
  path is a file, the check raises nothing and returns the paths.
\<close>

theorem missing_files_fail_before_requests:
  assumes "s \<noteq> []"
  shows "(list_ex (\<lambda>p. \<not> isfile p) (split s CHR '','') \<longrightarrow>
            get_and_check_datafile_paths isfile (Some s) =
              Inl (FileNotFoundError
                (files_not_found_message (filter (\<lambda>p. \<not> isfile p) (split s CHR '',''))))
            \<and> list_all
                (\<lambda>p. isfile p \<or> sublist (CHR 0x09 # p)
                  (files_not_found_message (filter (\<lambda>p. \<not> isfile p) (split s CHR '',''))))
                (split s CHR '','')
            \<and> submission_path isfile (Some s) rest open_rb remote basename access_token data =
                ([], Inl (FileNotFoundError
                  (files_not_found_message
                    (filter (\<lambda>p. \<not> isfile p) (split s CHR '',''))))))
     \<and> (list_all isfile (split s CHR '','') \<longrightarrow>
            get_and_check_datafile_paths isfile (Some s) = Inr (split s CHR '',''))"
proof -
  let ?paths = "split s CHR '',''"
  let ?no_file = "filter (\<lambda>p. \<not> isfile p) ?paths"
  have listed: "list_all (\<lambda>p. isfile p \<or> sublist (CHR 0x09 # p)
      (files_not_found_message ?no_file)) ?paths"
  proof -
    have "sublist (CHR 0x09 # p) (files_not_found_message ?no_file)"
      if "p \<in> set ?paths" and "\<not> isfile p" for p
    proof -
      from that have "CHR 0x09 # p \<in> set (map (\<lambda>file. CHR 0x09 # file) ?no_file)"
        by simp
      then show ?thesis
        unfolding files_not_found_message_def by (rule sublist_join)
    qed
    then show ?thesis unfolding list_all_iff by blast
  qed
  have missing: "get_and_check_datafile_paths isfile (Some s) =
      Inl (FileNotFoundError (files_not_found_message ?no_file))"
    if "list_ex (\<lambda>p. \<not> isfile p) ?paths"
  proof -
    from that have "?no_file \<noteq> []" by (auto simp: list_ex_iff filter_empty_conv)
    then show ?thesis
      using assms by (simp add: get_and_check_datafile_paths_def Let_def split_nonempty)
  qed
  have present: "get_and_check_datafile_paths isfile (Some s) = Inr ?paths"
    if "list_all isfile ?paths"
  proof -
    from that have "?no_file = []" by (auto simp: list_all_iff filter_empty_conv)
    then show ?thesis
      using assms by (simp add: get_and_check_datafile_paths_def Let_def split_nonempty)
  qed
  have path: "submission_path isfile (Some s) rest open_rb remote basename access_token data =
      ([], Inl (FileNotFoundError (files_not_found_message ?no_file)))"
    if "list_ex (\<lambda>p. \<not> isfile p) ?paths"
    using missing [OF that] by (simp add: submission_path_def)
  from listed missing present path show ?thesis by blast
qed

theorem missing_files_fail_before_requests_witness:
  "''a.txt,b.txt,c.txt'' \<noteq> []
   \<and> split ''a.txt,b.txt,c.txt'' CHR '','' = [''a.txt'', ''b.txt'', ''c.txt'']
   \<and> list_ex (\<lambda>p. \<not> (p = ''a.txt'')) [''a.txt'', ''b.txt'', ''c.txt'']
   \<and> submission_path (\<lambda>p. p = ''a.txt'') (Some ''a.txt,b.txt,c.txt'') None opens failing_uploads
        (\<lambda>p. p) ''token'' () =
       ([], Inl (FileNotFoundError
          (''The following files for upload could not be found '' @ [CHR 0x09] @ ''b.txt''
             @ [CHR 0x0A, CHR 0x09] @ ''c.txt'')))
   \<and> ''a.txt'' \<noteq> []
   \<and> list_all (\<lambda>p. p = ''a.txt'') (split ''a.txt'' CHR '','')
   \<and> get_and_check_datafile_paths (\<lambda>p. p = ''a.txt'') (Some ''a.txt'') = Inr [''a.txt'']"
proof -
  have n: "''a.txt,b.txt,c.txt'' \<noteq> []" "''a.txt'' \<noteq> []" by simp_all
  have sp: "split ''a.txt,b.txt,c.txt'' CHR '','' = [''a.txt'', ''b.txt'', ''c.txt'']"
    by (simp add: split_def)
  have sp1: "split ''a.txt'' CHR '','' = [''a.txt'']"
    by (simp add: split_def)
  have ex: "list_ex (\<lambda>p. \<not> (p = ''a.txt'')) [''a.txt'', ''b.txt'', ''c.txt'']" by simp
  have al: "list_all (\<lambda>p. p = ''a.txt'') (split ''a.txt'' CHR '','')"
    unfolding sp1 by simp
  from missing_files_fail_before_requests [OF n(1), of "\<lambda>p. p = ''a.txt''" None opens
      failing_uploads "\<lambda>p. p" "''token''" "()"] ex
  have "submission_path (\<lambda>p. p = ''a.txt'') (Some ''a.txt,b.txt,c.txt'') None opens failing_uploads
        (\<lambda>p. p) ''token'' () =
      ([], Inl (FileNotFoundError (files_not_found_message
         (filter (\<lambda>p. \<not> (p = ''a.txt'')) (split ''a.txt,b.txt,c.txt'' CHR '','')))))"
    unfolding sp by blast
  then have e: "submission_path (\<lambda>p. p = ''a.txt'') (Some ''a.txt,b.txt,c.txt'') None opens
        failing_uploads (\<lambda>p. p) ''token'' () =
       ([], Inl (FileNotFoundError
          (''The following files for upload could not be found '' @ [CHR 0x09] @ ''b.txt''
             @ [CHR 0x0A, CHR 0x09] @ ''c.txt'')))"
    unfolding sp by (simp add: files_not_found_message_def)
  from missing_files_fail_before_requests [OF n(2), of "\<lambda>p. p = ''a.txt''" None opens
      failing_uploads "\<lambda>p. p" "''token''" "()"] al
  have "get_and_check_datafile_paths (\<lambda>p. p = ''a.txt'') (Some ''a.txt'') =
      Inr (split ''a.txt'' CHR '','')"
    by blast
  then have g: "get_and_check_datafile_paths (\<lambda>p. p = ''a.txt'') (Some ''a.txt'') = Inr [''a.txt'']"
    unfolding sp1 .
  from n sp ex e al g show ?thesis by blast
qed

section \<open>The submission: calls and responses\<close>































end
